theory Spec2Isabelle
  imports Complex_Main "HOL-Library.Multiset"
begin

section \<open>Characters and strings of the OCR text\<close>

text \<open>
  The extractor of \<^verbatim>\<open>processImage.py\<close> works on Python \<^verbatim>\<open>str\<close> values. The
  model takes the text to be ASCII: a \<^typ>\<open>string\<close> is a list of characters, and the
  character tests below are the ASCII part of \<^verbatim>\<open>str.isdigit\<close>, \<^verbatim>\<open>str.isalpha\<close>,
  \<^verbatim>\<open>str.isupper\<close>, \<^verbatim>\<open>str.isspace\<close> and of the regular-expression classes
  \<^verbatim>\<open>\d\<close>, \<^verbatim>\<open>\s\<close>, \<^verbatim>\<open>\w\<close>. A character outside ASCII is none of these here.
\<close>

definition char_code :: "char \<Rightarrow> nat" where
  \<comment> \<open>\<^verbatim>\<open>ord(c)\<close>\<close>
  "char_code c = of_char c"

definition is_digit :: "char \<Rightarrow> bool" where
  "is_digit c = (48 \<le> char_code c \<and> char_code c \<le> 57)"

definition is_upper :: "char \<Rightarrow> bool" where
  "is_upper c = (65 \<le> char_code c \<and> char_code c \<le> 90)"

definition is_lower :: "char \<Rightarrow> bool" where
  "is_lower c = (97 \<le> char_code c \<and> char_code c \<le> 122)"

definition is_alpha :: "char \<Rightarrow> bool" where
  "is_alpha c = (is_upper c \<or> is_lower c)"

definition is_space :: "char \<Rightarrow> bool" where
  \<comment> \<open>tab, line feed, vertical tab, form feed, carriage return, the four separators
      \<^verbatim>\<open>\x1c\<close> to \<^verbatim>\<open>\x1f\<close>, and the space\<close>
  "is_space c = ((9 \<le> char_code c \<and> char_code c \<le> 13) \<or> (28 \<le> char_code c \<and> char_code c \<le> 32))"

definition is_word :: "char \<Rightarrow> bool" where
  \<comment> \<open>the class \<^verbatim>\<open>\w\<close>\<close>
  "is_word c = (is_alpha c \<or> is_digit c \<or> c = CHR ''_'')"

definition upper_char :: "char \<Rightarrow> char" where
  "upper_char c = (if is_lower c then char_of (char_code c - 32) else c)"

definition lower_char :: "char \<Rightarrow> char" where
  "lower_char c = (if is_upper c then char_of (char_code c + 32) else c)"

definition upper :: "string \<Rightarrow> string" where
  \<comment> \<open>\<^verbatim>\<open>s.upper()\<close>\<close>
  "upper s = map upper_char s"

definition lower :: "string \<Rightarrow> string" where
  \<comment> \<open>\<^verbatim>\<open>s.lower()\<close>\<close>
  "lower s = map lower_char s"

fun capitalize :: "string \<Rightarrow> string" where
  \<comment> \<open>\<^verbatim>\<open>s.capitalize()\<close>: first character upper case, the rest lower case\<close>
  "capitalize [] = []"
| "capitalize (c # cs) = upper_char c # lower cs"

definition strip :: "string \<Rightarrow> string" where
  \<comment> \<open>\<^verbatim>\<open>s.strip()\<close>\<close>
  "strip s = rev (dropWhile is_space (rev (dropWhile is_space s)))"

fun split_from :: "string \<Rightarrow> string \<Rightarrow> string list" where
  \<comment> \<open>the scan of \<^verbatim>\<open>s.split()\<close>: \<open>cur\<close> is the word read so far\<close>
  "split_from cur [] = (if cur = [] then [] else [cur])"
| "split_from cur (c # cs) =
     (if is_space c then (if cur = [] then split_from [] cs else cur # split_from [] cs)
      else split_from (cur @ [c]) cs)"

definition split :: "string \<Rightarrow> string list" where
  \<comment> \<open>\<^verbatim>\<open>s.split()\<close>: the maximal runs of non-whitespace characters\<close>
  "split s = split_from [] s"

fun join :: "string \<Rightarrow> string list \<Rightarrow> string" where
  \<comment> \<open>\<^verbatim>\<open>sep.join(xs)\<close>\<close>
  "join sep [] = []"
| "join sep [x] = x"
| "join sep (x # y # ys) = x @ sep @ join sep (y # ys)"

fun starts_with :: "string \<Rightarrow> string \<Rightarrow> bool" where
  "starts_with s [] = True"
| "starts_with [] (p # ps) = False"
| "starts_with (c # cs) (p # ps) = (c = p \<and> starts_with cs ps)"

fun contains :: "string \<Rightarrow> string \<Rightarrow> bool" where
  \<comment> \<open>\<^verbatim>\<open>sub in s\<close>\<close>
  "contains [] sub = (sub = [])"
| "contains (c # cs) sub = (starts_with (c # cs) sub \<or> contains cs sub)"

definition remove_char :: "char \<Rightarrow> string \<Rightarrow> string" where
  \<comment> \<open>\<^verbatim>\<open>s.replace(c, '')\<close>\<close>
  "remove_char c s = filter (\<lambda>x. x \<noteq> c) s"

definition replace_char :: "char \<Rightarrow> char \<Rightarrow> string \<Rightarrow> string" where
  \<comment> \<open>\<^verbatim>\<open>s.replace(a, b)\<close> for one-character strings\<close>
  "replace_char a b s = map (\<lambda>x. if x = a then b else x) s"

definition slice :: "'a list \<Rightarrow> nat \<Rightarrow> nat \<Rightarrow> 'a list" where
  \<comment> \<open>\<^verbatim>\<open>xs[i:j]\<close> for indices that are not negative\<close>
  "slice xs i j = take (j - i) (drop i xs)"

section \<open>Regular expressions\<close>

text \<open>
  The patterns of the source are sequences of a character class repeated between a lower
  and an upper bound, the word boundary \<^verbatim>\<open>\b\<close> and the end anchor \<^verbatim>\<open>$\<close>.
  \<open>rmatch\<close> is the backtracking matcher of \<^verbatim>\<open>re\<close> on such a sequence: a repetition is
  greedy, it takes the longest run first and gives characters back one at a time. The result
  is the length of the first match found at the given position.
\<close>

datatype cclass = Digit | UpperAZ | Letter | Space | KeptInName

fun in_class :: "cclass \<Rightarrow> char \<Rightarrow> bool" where
  "in_class Digit c = is_digit c"
| "in_class UpperAZ c = is_upper c"
| "in_class Letter c = is_alpha c"
| "in_class Space c = is_space c"
| "in_class KeptInName c = (is_alpha c \<or> is_space c \<or> c = CHR ''.'' \<or> c = CHR 0x27)"

datatype re_item =
    Rep cclass nat "nat option"  \<comment> \<open>\<^verbatim>\<open>c{lo,hi}\<close>; no upper bound for \<^verbatim>\<open>c*\<close> and \<^verbatim>\<open>c+\<close>\<close>
  | NotRep cclass                \<comment> \<open>one character outside the class, \<^verbatim>\<open>[^...]\<close>\<close>
  | WordB                        \<comment> \<open>\<^verbatim>\<open>\b\<close>\<close>
  | EndS                         \<comment> \<open>\<^verbatim>\<open>$\<close>\<close>

fun at_boundary :: "char option \<Rightarrow> string \<Rightarrow> bool" where
  "at_boundary prev s =
     ((case prev of None \<Rightarrow> False | Some p \<Rightarrow> is_word p)
      \<noteq> (case s of [] \<Rightarrow> False | c # _ \<Rightarrow> is_word c))"

fun at_end :: "string \<Rightarrow> bool" where
  \<comment> \<open>\<^verbatim>\<open>$\<close> without MULTILINE: at the end, or before a newline that ends the string\<close>
  "at_end s = (s = [] \<or> s = [CHR 0x0A])"

fun prev_after :: "char option \<Rightarrow> string \<Rightarrow> char option" where
  "prev_after prev [] = prev"
| "prev_after prev (c # cs) = Some (last (c # cs))"

fun try_counts :: "(nat \<Rightarrow> nat option) \<Rightarrow> nat \<Rightarrow> nat \<Rightarrow> nat option" where
  \<comment> \<open>the counts \<open>k\<close>, \<open>k - 1\<close>, ... down to \<open>lo\<close>, in this order\<close>
  "try_counts f lo 0 = (if 0 < lo then None else f 0)"
| "try_counts f lo (Suc k) =
     (if Suc k < lo then None
      else case f (Suc k) of
             Some n \<Rightarrow> Some (Suc k + n)
           | None \<Rightarrow> try_counts f lo k)"

fun rmatch :: "re_item list \<Rightarrow> char option \<Rightarrow> string \<Rightarrow> nat option" where
  "rmatch [] prev s = Some 0"
| "rmatch (WordB # r) prev s = (if at_boundary prev s then rmatch r prev s else None)"
| "rmatch (EndS # r) prev s = (if at_end s then rmatch r prev s else None)"
| "rmatch (NotRep cls # r) prev [] = None"
| "rmatch (NotRep cls # r) prev (c # cs) =
     (if in_class cls c then None else map_option Suc (rmatch r (Some c) cs))"
| "rmatch (Rep cls lo hi # r) prev s =
     (let run = length (takeWhile (in_class cls) s);
          most = (case hi of None \<Rightarrow> run | Some h \<Rightarrow> min h run)
      in try_counts (\<lambda>k. rmatch r (prev_after prev (take k s)) (drop k s)) lo most)"

fun search_from :: "re_item list \<Rightarrow> char option \<Rightarrow> string \<Rightarrow> string option" where
  \<comment> \<open>the leftmost match, from the current position on\<close>
  "search_from p prev [] = map_option (\<lambda>n. []) (rmatch p prev [])"
| "search_from p prev (c # cs) =
     (case rmatch p prev (c # cs) of
        Some n \<Rightarrow> Some (take n (c # cs))
      | None \<Rightarrow> search_from p (Some c) cs)"

definition re_search :: "re_item list \<Rightarrow> string \<Rightarrow> string option" where
  \<comment> \<open>\<^verbatim>\<open>re.search(p, s)\<close>; the result is \<^verbatim>\<open>match.group(0)\<close>\<close>
  "re_search p s = search_from p None s"

fun sub_from :: "re_item list \<Rightarrow> nat \<Rightarrow> char option \<Rightarrow> string \<Rightarrow> string" where
  \<comment> \<open>the scan of \<^verbatim>\<open>re.sub(p, '', s)\<close>: \<open>skip\<close> characters of a match are still to
      be deleted\<close>
  "sub_from p skip prev [] = []"
| "sub_from p (Suc skip) prev (c # cs) = sub_from p skip (Some c) cs"
| "sub_from p 0 prev (c # cs) =
     (case rmatch p prev (c # cs) of
        Some (Suc n) \<Rightarrow> sub_from p n (Some c) cs
      | _ \<Rightarrow> c # sub_from p 0 (Some c) cs)"

definition re_sub_empty :: "re_item list \<Rightarrow> string \<Rightarrow> string" where
  \<comment> \<open>\<^verbatim>\<open>re.sub(p, '', s)\<close>: every match, left to right and not overlapping, is deleted\<close>
  "re_sub_empty p s = sub_from p 0 None s"

section \<open>Line records, candidates and the result\<close>

text \<open>
  A line record of the OCR engine, as built in \<^verbatim>\<open>lambda_handler\<close>: the keys
  \<^verbatim>\<open>text\<close>, \<^verbatim>\<open>confidence\<close>, \<^verbatim>\<open>top\<close>, \<^verbatim>\<open>left\<close>, \<^verbatim>\<open>height\<close>, \<^verbatim>\<open>width\<close>. The
  geometry is a page fraction; Python's floats are taken as real numbers.
\<close>

record text_block =
  line_text :: string
  confidence :: real
  top_y :: real
  left_x :: real
  height :: real
  width :: real

text \<open>
  The dictionary appended to \<^verbatim>\<open>name_candidates\<close>, with its keys \<^verbatim>\<open>name\<close>,
  \<^verbatim>\<open>score\<close>, \<^verbatim>\<open>lines\<close>, \<^verbatim>\<open>start_idx\<close>, \<^verbatim>\<open>end_idx\<close> and \<^verbatim>\<open>raw_lines\<close>.
\<close>

record candidate =
  c_name :: string
  c_score :: int
  c_lines :: nat
  c_start_idx :: nat
  c_end_idx :: nat
  c_raw_lines :: "string list"

record debug_info =
  totalLines :: nat
  rgFoundAt :: int
  candidatesFound :: nat
  topCandidate :: "candidate option"

record result =
  res_name :: string
  rgNumber :: string
  success :: bool
  debug :: debug_info

section \<open>\<^verbatim>\<open>are_blocks_vertically_close\<close>\<close>

fun gaps_within :: "real \<Rightarrow> text_block list \<Rightarrow> bool" where
  \<comment> \<open>the loop over \<^verbatim>\<open>range(len(blocks) - 1)\<close>\<close>
  "gaps_within max_gap (current # next # rest) =
     (let current_bottom = top_y current + height current;
          next_top = top_y next;
          gap = next_top - current_bottom
      in if gap > max_gap then False else gaps_within max_gap (next # rest))"
| "gaps_within max_gap blocks = True"

definition are_blocks_vertically_close :: "text_block list \<Rightarrow> real \<Rightarrow> bool" where
  "are_blocks_vertically_close blocks max_gap =
     (if length blocks \<le> 1 then True else gaps_within max_gap blocks)"

definition max_gap_default :: real where
  "max_gap_default = 0.015"

section \<open>\<^verbatim>\<open>score_name_candidate_multiline\<close>\<close>

definition skip_keywords :: "string list" where
  "skip_keywords =
     [''VIT'', ''VELLORE'', ''INSTITUTE'', ''TECHNOLOGY'', ''CHENNAI'', ''CAMPUS'',
      ''DEEMED'', ''UNIVERSITY'', ''UGC'', ''SECTION'', ''ACT'', ''1956'',
      ''DAY'', ''SCHOLAR'', ''HOSTEL'', ''BLOCK'', ''VALID'', ''UNTIL'',
      ''HTTP'', ''WWW'', ''.COM'', ''.IN'', ''STUDENT'', ''CARD'', ''IDENTITY'',
      ''REGISTRATION'', ''NUMBER'', ''DATE'', ''ISSUE'', ''BLOOD'', ''GROUP'']"

definition rg_in_text :: "re_item list" where
  \<comment> \<open>\<^verbatim>\<open>\d{2}[A-Z]{3}\d{4}\<close>\<close>
  "rg_in_text = [Rep Digit 2 (Some 2), Rep UpperAZ 3 (Some 3), Rep Digit 4 (Some 4)]"

text \<open>
  The two float comparisons of the source, \<^verbatim>\<open>digit_count > len(text) * 0.2\<close> and
  \<^verbatim>\<open>alpha_count > len(text) * 0.85\<close>, compare an integer with a multiple of one fifth and
  of one twentieth. They are written over the integers, as \<open>5 * digit_count > length text\<close>
  and \<open>20 * alpha_count > 17 * length text\<close>: where the exact product is an integer the
  double product rounds to it, and elsewhere rounding does not cross an integer, so both
  readings agree for every length a text can have.
\<close>

definition score_name_candidate_multiline ::
  "string \<Rightarrow> string list \<Rightarrow> nat \<Rightarrow> int \<Rightarrow> nat \<Rightarrow> bool \<Rightarrow> int" where
  "score_name_candidate_multiline text0 raw_lines start_idx rg_index num_lines near_name_keyword =
     (if text0 = [] \<or> length (strip text0) < 3 then 0
      else
        let text = strip text0;
            upper_text = upper text
        in
        if list_ex (\<lambda>keyword. contains upper_text keyword) skip_keywords then 0
        else if re_search rg_in_text (remove_char CHR '' '' upper_text) \<noteq> None then 0
        else
          let digit_count = length (filter is_digit text) in
          if 5 * digit_count > length text then 0
          else
            let score = (5::int);
                score = score + (if 8 \<le> length text \<and> length text \<le> 50 then 5
                                 else if 50 < length text \<and> length text \<le> 70 then 2
                                 else 0);
                words = filter (\<lambda>w. length w \<ge> 2) (split text);
                word_count = length words;
                score = score + (if word_count = 2 then 8
                                 else if word_count = 3 then 10
                                 else if word_count = 4 then 8
                                 else if word_count = 5 then 5
                                 else if word_count \<ge> 6 then 2
                                 else 0);
                alpha_count = length (filter is_alpha text);
                score = score + (if 20 * alpha_count > 17 * length text then 5 else 0);
                score = score + (if length (filter is_upper text) \<ge> 2 then 4 else 0);
                score = score + (if num_lines = 2 then 6
                                 else if num_lines = 3 then 4
                                 else 0);
                score = score + (if rg_index > 0 then
                                   (let distance = rg_index - (int start_idx + int num_lines - 1)
                                    in if distance = 1 then 15
                                       else if distance = 2 then 10
                                       else if distance = 3 then 5
                                       else 0)
                                 else 0);
                score = score + (if near_name_keyword then 12 else 0);
                score = foldl (\<lambda>score line. if length (strip line) \<ge> 3 then score + 2 else score)
                          score raw_lines
            in max 0 score)"

section \<open>\<^verbatim>\<open>fix_ocr_errors\<close> and \<^verbatim>\<open>clean_and_correct_name\<close>\<close>

definition replacements :: "(char \<times> char) list" where
  "replacements =
     [(CHR ''0'', CHR ''O''), (CHR ''1'', CHR ''I''), (CHR ''5'', CHR ''S''), (CHR ''8'', CHR ''B'')]"

fun apply_replacements :: "(char \<times> char) list \<Rightarrow> string \<Rightarrow> string \<Rightarrow> string" where
  \<comment> \<open>the loop over \<^verbatim>\<open>replacements.items()\<close>; the test reads \<open>word\<close>, the replacement
      changes \<open>corrected\<close>\<close>
  "apply_replacements [] word corrected = corrected"
| "apply_replacements ((wrong, right) # rest) word corrected =
     apply_replacements rest word
       (if wrong \<in> set word then replace_char wrong right corrected else corrected)"

definition incomplete_patterns :: "(string \<times> string) list" where
  "incomplete_patterns =
     [(''amaneni'', ''Annamaneni''), (''nnamaneni'', ''Annamaneni''), (''naman'', ''Anaman'')]"

fun first_fix :: "(string \<times> string) list \<Rightarrow> string \<Rightarrow> string option" where
  \<comment> \<open>the loop over \<^verbatim>\<open>incomplete_patterns.items()\<close>, which returns at the first pattern
      found in the word\<close>
  "first_fix [] word_lower = None"
| "first_fix ((pattern, fix) # rest) word_lower =
     (if contains word_lower pattern then Some fix else first_fix rest word_lower)"

definition fix_ocr_errors :: "string \<Rightarrow> string" where
  "fix_ocr_errors word =
     (let corrected = apply_replacements replacements word word
      in case (if length word \<ge> 4 then first_fix incomplete_patterns (lower word) else None) of
           Some fix \<Rightarrow> fix
         | None \<Rightarrow> capitalize corrected)"

definition digits_re :: "re_item list" where
  \<comment> \<open>\<^verbatim>\<open>\d+\<close>\<close>
  "digits_re = [Rep Digit 1 None]"

definition special_re :: "re_item list" where
  \<comment> \<open>\<^verbatim>\<open>[^a-zA-Z\s\.\']\<close>\<close>
  "special_re = [NotRep KeptInName]"

definition trailing_letter_re :: "re_item list" where
  \<comment> \<open>\<^verbatim>\<open>\s+[A-Za-z]$\<close>\<close>
  "trailing_letter_re = [Rep Space 1 None, Rep Letter 1 (Some 1), EndS]"

definition name_words :: "string \<Rightarrow> string list" where
  \<comment> \<open>the list \<^verbatim>\<open>words\<close> of \<^verbatim>\<open>clean_and_correct_name\<close>: the tokens handed to
      \<^verbatim>\<open>fix_ocr_errors\<close>\<close>
  "name_words name0 =
     (let name = join '' '' (split name0);
          name = re_sub_empty digits_re name;
          name = re_sub_empty special_re name
      in filter (\<lambda>w. length w \<ge> 2) (split name))"

definition clean_and_correct_name :: "string \<Rightarrow> string" where
  "clean_and_correct_name name0 =
     (let words = name_words name0;
          corrected_words = map fix_ocr_errors words;
          formatted = map capitalize corrected_words;
          final_name = strip (join '' '' formatted);
          final_name = re_sub_empty trailing_letter_re final_name
      in final_name)"

section \<open>\<^verbatim>\<open>extract_vit_id_multiline\<close>\<close>

definition lines_of :: "text_block list \<Rightarrow> string list" where
  \<comment> \<open>\<^verbatim>\<open>lines = [block['text'].strip() for block in text_blocks]\<close>\<close>
  "lines_of text_blocks = map (\<lambda>block. strip (line_text block)) text_blocks"

subsection \<open>Step 1: the registration number\<close>

definition rg_patterns :: "re_item list list" where
  \<comment> \<open>\<^verbatim>\<open>\b\d{2}[A-Z]{3}\d{4}\b\<close>, \<^verbatim>\<open>\b\d{2}[A-Z]{3}\d{3,5}\b\<close> and
      \<^verbatim>\<open>\b\d{2}\s*[A-Z]{3}\s*\d{4}\b\<close>\<close>
  "rg_patterns =
     [[WordB, Rep Digit 2 (Some 2), Rep UpperAZ 3 (Some 3), Rep Digit 4 (Some 4), WordB],
      [WordB, Rep Digit 2 (Some 2), Rep UpperAZ 3 (Some 3), Rep Digit 3 (Some 5), WordB],
      [WordB, Rep Digit 2 (Some 2), Rep Space 0 None, Rep UpperAZ 3 (Some 3), Rep Space 0 None,
       Rep Digit 4 (Some 4), WordB]]"

definition clean_line :: "string \<Rightarrow> string" where
  \<comment> \<open>\<^verbatim>\<open>line.upper().replace(' ', '').replace('-', '')\<close>\<close>
  "clean_line line = remove_char CHR ''-'' (remove_char CHR '' '' (upper line))"

fun try_patterns :: "re_item list list \<Rightarrow> string \<Rightarrow> nat \<Rightarrow> string \<times> int \<Rightarrow> string \<times> int" where
  \<comment> \<open>the loop over \<^verbatim>\<open>rg_patterns\<close>, left at the first match; the state is
      \<^verbatim>\<open>(rg_number, rg_index)\<close>\<close>
  "try_patterns [] line_clean i st = st"
| "try_patterns (pattern # rest) line_clean i st =
     (case re_search pattern line_clean of
        Some m \<Rightarrow> (m, int i)
      | None \<Rightarrow> try_patterns rest line_clean i st)"

fun find_rg_from :: "nat \<Rightarrow> string list \<Rightarrow> string \<times> int \<Rightarrow> string \<times> int" where
  \<comment> \<open>the loop over \<^verbatim>\<open>enumerate(lines)\<close>, left once \<^verbatim>\<open>rg_number\<close> is set\<close>
  "find_rg_from i [] st = st"
| "find_rg_from i (line # rest) st =
     (let line_clean = clean_line line;
          st = try_patterns rg_patterns line_clean i st
      in if fst st \<noteq> ''Not Found'' then st else find_rg_from (Suc i) rest st)"

definition find_rg_number :: "string list \<Rightarrow> string \<times> int" where
  "find_rg_number lines = find_rg_from 0 lines (''Not Found'', - 1)"

subsection \<open>Step 2: candidates above the registration number\<close>

fun candidates_from_starts ::
  "text_block list \<Rightarrow> string list \<Rightarrow> int \<Rightarrow> nat \<Rightarrow> nat \<Rightarrow> nat list \<Rightarrow> candidate list
   \<Rightarrow> candidate list" where
  \<comment> \<open>the loop over \<^verbatim>\<open>range(search_start, search_end)\<close> for one \<^verbatim>\<open>num_lines\<close>\<close>
  "candidates_from_starts text_blocks lines rg_index search_end num_lines [] name_candidates =
     name_candidates"
| "candidates_from_starts text_blocks lines rg_index search_end num_lines (start_idx # rest)
     name_candidates =
     (let end_idx = start_idx + num_lines in
      if end_idx > search_end then name_candidates
      else if num_lines > 1
              \<and> \<not> are_blocks_vertically_close (slice text_blocks start_idx end_idx) max_gap_default
      then candidates_from_starts text_blocks lines rg_index search_end num_lines rest name_candidates
      else
        let merged_lines = slice lines start_idx end_idx;
            merged_text = join '' '' merged_lines;
            score = score_name_candidate_multiline merged_text merged_lines start_idx rg_index
                      num_lines False
        in candidates_from_starts text_blocks lines rg_index search_end num_lines rest
             (if score > 0
              then name_candidates @
                     [\<lparr>c_name = merged_text, c_score = score, c_lines = num_lines,
                       c_start_idx = start_idx, c_end_idx = end_idx, c_raw_lines = merged_lines\<rparr>]
              else name_candidates))"

fun candidates_above ::
  "text_block list \<Rightarrow> string list \<Rightarrow> int \<Rightarrow> nat list \<Rightarrow> candidate list \<Rightarrow> candidate list" where
  \<comment> \<open>the loop over \<^verbatim>\<open>num_lines in [1, 2, 3]\<close>\<close>
  "candidates_above text_blocks lines rg_index [] name_candidates = name_candidates"
| "candidates_above text_blocks lines rg_index (num_lines # rest) name_candidates =
     (let search_start = nat (max 0 (rg_index - 6));
          search_end = nat rg_index
      in candidates_above text_blocks lines rg_index rest
           (candidates_from_starts text_blocks lines rg_index search_end num_lines
              [search_start ..< search_end] name_candidates))"

subsection \<open>Step 3: candidates after a line with \<^verbatim>\<open>NAME\<close>\<close>

fun candidates_after_line ::
  "string list \<Rightarrow> int \<Rightarrow> nat \<Rightarrow> nat list \<Rightarrow> candidate list \<Rightarrow> candidate list" where
  \<comment> \<open>the loop over \<^verbatim>\<open>num_lines in [1, 2, 3]\<close> for the keyword line \<open>i\<close>\<close>
  "candidates_after_line lines rg_index i [] name_candidates = name_candidates"
| "candidates_after_line lines rg_index i (num_lines # rest) name_candidates =
     (if i + num_lines < length lines then
        let start_idx = i + 1;
            end_idx = start_idx + num_lines
        in if end_idx > length lines then name_candidates
           else
             let merged_lines = slice lines start_idx end_idx;
                 merged_text = join '' '' merged_lines;
                 score = score_name_candidate_multiline merged_text merged_lines start_idx
                           rg_index num_lines True
             in candidates_after_line lines rg_index i rest
                  (if score > 0
                   then name_candidates @
                          [\<lparr>c_name = merged_text, c_score = score + 10, c_lines = num_lines,
                            c_start_idx = start_idx, c_end_idx = end_idx,
                            c_raw_lines = merged_lines\<rparr>]
                   else name_candidates)
      else candidates_after_line lines rg_index i rest name_candidates)"

fun candidates_after_name ::
  "string list \<Rightarrow> int \<Rightarrow> nat \<Rightarrow> string list \<Rightarrow> candidate list \<Rightarrow> candidate list" where
  \<comment> \<open>the loop over \<^verbatim>\<open>enumerate(lines)\<close>; the fourth argument is the lines from
      index \<open>i\<close> on\<close>
  "candidates_after_name lines rg_index i [] name_candidates = name_candidates"
| "candidates_after_name lines rg_index i (line # rest) name_candidates =
     candidates_after_name lines rg_index (Suc i) rest
       (if contains (upper line) ''NAME''
        then candidates_after_line lines rg_index i [1, 2, 3] name_candidates
        else name_candidates)"

definition name_candidates_of :: "text_block list \<Rightarrow> candidate list" where
  \<comment> \<open>\<^verbatim>\<open>name_candidates\<close> at the end of step 3, in the order of the appends\<close>
  "name_candidates_of text_blocks =
     (let lines = lines_of text_blocks;
          rg_index = snd (find_rg_number lines);
          name_candidates = [];
          name_candidates = (if rg_index > 0
                             then candidates_above text_blocks lines rg_index [1, 2, 3] name_candidates
                             else name_candidates)
      in candidates_after_name lines rg_index 0 lines name_candidates)"

subsection \<open>Step 4: the best candidate and the result\<close>

definition sort_by_score :: "candidate list \<Rightarrow> candidate list" where
  \<comment> \<open>\<^verbatim>\<open>name_candidates.sort(key=lambda x: x['score'], reverse=True)\<close>: Python's sort is
      stable, also with \<^verbatim>\<open>reverse=True\<close>, and so is the insertion sort \<open>sort_key\<close>\<close>
  "sort_by_score name_candidates = sort_key (\<lambda>x. - c_score x) name_candidates"

definition extract_vit_id_multiline :: "text_block list \<Rightarrow> result" where
  "extract_vit_id_multiline text_blocks =
     (let lines = lines_of text_blocks;
          (rg_number, rg_index) = find_rg_number lines;
          name_candidates = name_candidates_of text_blocks;
          name_candidates = (if name_candidates \<noteq> [] then sort_by_score name_candidates
                             else name_candidates);
          name = (case name_candidates of
                    best # _ \<Rightarrow> clean_and_correct_name (c_name best)
                  | [] \<Rightarrow> ''Unknown'')
      in \<lparr>res_name = name, rgNumber = rg_number, success = True,
          debug = \<lparr>totalLines = length lines, rgFoundAt = rg_index,
                    candidatesFound = length name_candidates,
                    topCandidate = (case name_candidates of c # _ \<Rightarrow> Some c | [] \<Rightarrow> None)\<rparr>\<rparr>)"

section \<open>The handler's call of the extractor\<close>

definition process_text_blocks :: "text_block list \<Rightarrow> result" where
  \<comment> \<open>\<^verbatim>\<open>text_blocks.sort(key=lambda x: x['top'])\<close>, a stable sort, and then
      \<^verbatim>\<open>extract_vit_id_multiline(text_blocks)\<close>\<close>
  "process_text_blocks text_blocks = extract_vit_id_multiline (sort_key top_y text_blocks)"

section \<open>The two passes taken apart, and the inputs used below\<close>

definition above_candidate :: "string list \<Rightarrow> int \<Rightarrow> nat \<Rightarrow> nat \<Rightarrow> candidate" where
  \<comment> \<open>the dictionary that step 2 builds for the span of \<open>num_lines\<close> lines from
      \<open>start_idx\<close>\<close>
  "above_candidate lines rg_index num_lines start_idx =
     (let merged_lines = slice lines start_idx (start_idx + num_lines);
          merged_text = join '' '' merged_lines
      in \<lparr>c_name = merged_text,
          c_score = score_name_candidate_multiline merged_text merged_lines start_idx rg_index
                      num_lines False,
          c_lines = num_lines, c_start_idx = start_idx, c_end_idx = start_idx + num_lines,
          c_raw_lines = merged_lines\<rparr>)"

definition after_candidate :: "string list \<Rightarrow> int \<Rightarrow> nat \<Rightarrow> nat \<Rightarrow> candidate" where
  \<comment> \<open>the dictionary that step 3 builds for the \<open>num_lines\<close> lines after the keyword
      line \<open>i\<close>\<close>
  "after_candidate lines rg_index num_lines i =
     (let merged_lines = slice lines (i + 1) (i + 1 + num_lines);
          merged_text = join '' '' merged_lines
      in \<lparr>c_name = merged_text,
          c_score = score_name_candidate_multiline merged_text merged_lines (i + 1) rg_index
                      num_lines True + 10,
          c_lines = num_lines, c_start_idx = i + 1, c_end_idx = i + 1 + num_lines,
          c_raw_lines = merged_lines\<rparr>)"

definition anchor_candidates :: "text_block list \<Rightarrow> candidate list" where
  \<comment> \<open>what step 2 appends\<close>
  "anchor_candidates text_blocks =
     (let lines = lines_of text_blocks;
          rg_index = snd (find_rg_number lines)
      in if rg_index > 0 then candidates_above text_blocks lines rg_index [1, 2, 3] [] else [])"

definition keyword_candidates :: "text_block list \<Rightarrow> candidate list" where
  \<comment> \<open>what step 3 appends\<close>
  "keyword_candidates text_blocks =
     (let lines = lines_of text_blocks;
          rg_index = snd (find_rg_number lines)
      in candidates_after_name lines rg_index 0 lines [])"

definition line_record :: "string \<Rightarrow> real \<Rightarrow> text_block" where
  \<comment> \<open>a line of height 0.02 at the given top\<close>
  "line_record t y =
     \<lparr>line_text = t, confidence = 99, top_y = y, left_x = 0.1, height = 0.02, width = 0.3\<rparr>"

definition scenario_a :: "text_block list" where
  "scenario_a =
     [line_record ''VIT UNIVERSITY'' 0.1, line_record ''NAME'' 0.2,
      line_record ''JOHN SMITH'' 0.225, line_record ''21BCE1234'' 0.3,
      line_record ''BLOOD GROUP O+'' 0.4]"


definition tie_pool :: "candidate list" where
  "tie_pool =
     [\<lparr>c_name = ''AB'', c_score = 30, c_lines = 1, c_start_idx = 0, c_end_idx = 1,
        c_raw_lines = [''AB'']\<rparr>,
      \<lparr>c_name = ''CD'', c_score = 41, c_lines = 1, c_start_idx = 1, c_end_idx = 2,
        c_raw_lines = [''CD'']\<rparr>,
      \<lparr>c_name = ''EF'', c_score = 41, c_lines = 1, c_start_idx = 2, c_end_idx = 3,
        c_raw_lines = [''EF'']\<rparr>]"

definition tie_blocks :: "text_block list" where
  "tie_blocks = [line_record ''RAVI KUMAR'' 0.1, line_record ''21CSE5678'' 0.1]"

definition scenario_a_lines :: "string list" where
  "scenario_a_lines = [''VIT UNIVERSITY'', ''NAME'', ''JOHN SMITH'', ''21BCE1234'', ''BLOOD GROUP O+'']"

definition john_smith_after_name :: candidate where
  "john_smith_after_name =
     \<lparr>c_name = ''JOHN SMITH'', c_score = 66, c_lines = 1, c_start_idx = 2, c_end_idx = 3,
      c_raw_lines = [''JOHN SMITH'']\<rparr>"

definition fix_ocr_errors_without_substitution :: "string \<Rightarrow> string" where
  \<comment> \<open>\<^verbatim>\<open>fix_ocr_errors\<close> with the loop over \<^verbatim>\<open>replacements\<close> taken out\<close>
  "fix_ocr_errors_without_substitution word =
     (case (if length word \<ge> 4 then first_fix incomplete_patterns (lower word) else None) of
        Some fix \<Rightarrow> fix
      | None \<Rightarrow> capitalize word)"

definition clean_and_correct_name_without_substitution :: "string \<Rightarrow> string" where
  \<comment> \<open>\<^verbatim>\<open>clean_and_correct_name\<close> over the variant above\<close>
  "clean_and_correct_name_without_substitution name0 =
     (let words = name_words name0;
          corrected_words = map fix_ocr_errors_without_substitution words;
          formatted = map capitalize corrected_words;
          final_name = strip (join '' '' formatted);
          final_name = re_sub_empty trailing_letter_re final_name
      in final_name)"

definition capitalized_word :: "string \<Rightarrow> bool" where
  \<comment> \<open>an upper-case letter followed by at least one letter, all of them lower case\<close>
  "capitalized_word w = (length w \<ge> 2 \<and> is_upper (hd w) \<and> list_all is_lower (tl w))"

definition kept_by_dictionary :: "string \<Rightarrow> bool" where
  \<comment> \<open>no pattern of \<^verbatim>\<open>incomplete_patterns\<close> occurs in the word, or the first one that
      does stands for the word itself\<close>
  "kept_by_dictionary w =
     (case (if length w \<ge> 4 then first_fix incomplete_patterns (lower w) else None) of
        None \<Rightarrow> True
      | Some fix \<Rightarrow> fix = w)"








section \<open>Properties of the candidate loops\<close>



lemma candidates_after_line_inv:
  assumes "\<forall>c \<in> set acc. P c"
    and "\<And>num_lines. num_lines \<in> set counts \<Longrightarrow> i + num_lines < length lines \<Longrightarrow>
           0 < score_name_candidate_multiline (c_name (after_candidate lines rg_index num_lines i))
                 (c_raw_lines (after_candidate lines rg_index num_lines i)) (i + 1) rg_index
                 num_lines True \<Longrightarrow>
           P (after_candidate lines rg_index num_lines i)"
  shows "\<forall>c \<in> set (candidates_after_line lines rg_index i counts acc). P c"
  using assms
proof (induction counts arbitrary: acc)
  case Nil
  then show ?case by simp
next
  case (Cons n counts)
  have step: "\<forall>c \<in> set (candidates_after_line lines rg_index i counts acc'). P c"
    if "\<forall>c \<in> set acc'. P c" for acc'
    using Cons.IH [OF that] Cons.prems(2) by simp
  show ?case
  proof (cases "i + n < length lines")
    case False
    then show ?thesis using step [OF Cons.prems(1)] by simp
  next
    case inside: True
    show ?thesis
    proof (cases "0 < score_name_candidate_multiline
                 (c_name (after_candidate lines rg_index n i))
                 (c_raw_lines (after_candidate lines rg_index n i)) (i + 1) rg_index n True")
      case True
      then have "P (after_candidate lines rg_index n i)"
        using Cons.prems(2) [of n] inside by simp
      then have "\<forall>c \<in> set (acc @ [after_candidate lines rg_index n i]). P c"
        using Cons.prems(1) by simp
      from step [OF this] show ?thesis
        using inside True by (simp add: after_candidate_def Let_def)
    next
      case False
      then show ?thesis
        using inside step [OF Cons.prems(1)] by (simp add: after_candidate_def Let_def)
    qed
  qed
qed

lemma candidates_after_name_inv:
  assumes "\<forall>c \<in> set acc. P c"
    and "\<And>num_lines k. num_lines \<in> {1, 2, 3} \<Longrightarrow> i \<le> k \<Longrightarrow> k < i + length rest \<Longrightarrow>
           contains (upper (rest ! (k - i))) ''NAME'' \<Longrightarrow>
           k + num_lines < length lines \<Longrightarrow>
           0 < score_name_candidate_multiline (c_name (after_candidate lines rg_index num_lines k))
                 (c_raw_lines (after_candidate lines rg_index num_lines k)) (k + 1) rg_index
                 num_lines True \<Longrightarrow>
           P (after_candidate lines rg_index num_lines k)"
  shows "\<forall>c \<in> set (candidates_after_name lines rg_index i rest acc). P c"
  using assms
proof (induction rest arbitrary: i acc)
  case Nil
  then show ?case by simp
next
  case (Cons line rest)
  let ?acc = "if contains (upper line) ''NAME''
        then candidates_after_line lines rg_index i [1, 2, 3] acc else acc"
  have "\<forall>c \<in> set (candidates_after_line lines rg_index i [1, 2, 3] acc). P c"
    if "contains (upper line) ''NAME''"
    by (rule candidates_after_line_inv [OF Cons.prems(1)])
       (use Cons.prems(2) [of _ i] that in auto)
  then have acc: "\<forall>c \<in> set ?acc. P c"
    using Cons.prems(1) by simp
  have "\<forall>c \<in> set (candidates_after_name lines rg_index (Suc i) rest ?acc). P c"
  proof (rule Cons.IH [OF acc])
    fix num_lines k
    assume "num_lines \<in> {1, 2, 3}" "Suc i \<le> k" "k < Suc i + length rest"
      "contains (upper (rest ! (k - Suc i))) ''NAME''" "k + num_lines < length lines"
      "0 < score_name_candidate_multiline (c_name (after_candidate lines rg_index num_lines k))
                 (c_raw_lines (after_candidate lines rg_index num_lines k)) (k + 1) rg_index
                 num_lines True"
    then show "P (after_candidate lines rg_index num_lines k)"
      using Cons.prems(2) [of num_lines k] by (simp add: nth_Cons')
  qed
  then show ?case by simp
qed

lemma line_bonus:
  "foldl (\<lambda>score line. if length (strip line) \<ge> 3 then score + 2 else score) (a::int) ls
   = a + 2 * int (length (filter (\<lambda>line. length (strip line) \<ge> 3) ls))"
  by (induction ls arbitrary: a) simp_all

lemma score_shape:
  "\<exists>d b. 0 \<le> b \<and> (\<forall>kw. score_name_candidate_multiline t r s rg n kw
                          = (if d then 0 else 5 + b + (if kw then 12 else 0)))"
proof -
  define tx where "tx = strip t"
  define A :: int where "A = (if 8 \<le> length tx \<and> length tx \<le> 50 then 5
                                 else if 50 < length tx \<and> length tx \<le> 70 then 2
                                 else 0)"
  define wc where "wc = length (filter (\<lambda>w. length w \<ge> 2) (split tx))"
  define B :: int where "B = (if wc = 2 then 8
                                 else if wc = 3 then 10
                                 else if wc = 4 then 8
                                 else if wc = 5 then 5
                                 else if wc \<ge> 6 then 2
                                 else 0)"
  define C :: int where "C = (if 20 * length (filter is_alpha tx) > 17 * length tx then 5 else 0)"
  define D :: int where "D = (if length (filter is_upper tx) \<ge> 2 then 4 else 0)"
  define E :: int where "E = (if n = 2 then 6 else if n = 3 then 4 else 0)"
  define F :: int where "F = (if rg > 0 then
                                   (let distance = rg - (int s + int n - 1)
                                    in if distance = 1 then 15
                                       else if distance = 2 then 10
                                       else if distance = 3 then 5
                                       else 0)
                                 else 0)"
  define L :: int where "L = 2 * int (length (filter (\<lambda>line. length (strip line) \<ge> 3) r))"
  have nonneg: "0 \<le> A" "0 \<le> B" "0 \<le> C" "0 \<le> D" "0 \<le> E" "0 \<le> F" "0 \<le> L"
    by (simp_all add: A_def B_def C_def D_def E_def F_def L_def Let_def)
  have eq: "score_name_candidate_multiline t r s rg n kw =
     (if t = [] \<or> length tx < 3 then 0
      else if list_ex (\<lambda>keyword. contains (upper tx) keyword) skip_keywords then 0
        else if re_search rg_in_text (remove_char CHR '' '' (upper tx)) \<noteq> None then 0
        else if 5 * length (filter is_digit tx) > length tx then 0
          else max 0 (5 + A + B + C + D + E + F + (if kw then 12 else 0) + L))" for kw
    by (simp only: score_name_candidate_multiline_def Let_def line_bonus
          tx_def A_def wc_def B_def C_def D_def E_def F_def L_def)
  show ?thesis
    apply (rule exI [of _ "t = [] \<or> length tx < 3
        \<or> list_ex (\<lambda>keyword. contains (upper tx) keyword) skip_keywords
        \<or> re_search rg_in_text (remove_char CHR '' '' (upper tx)) \<noteq> None
        \<or> 5 * length (filter is_digit tx) > length tx"])
    apply (rule exI [of _ "A + B + C + D + E + F + L"])
    using nonneg by (simp add: eq)
qed

lemma keyword_bonus:
  assumes "0 < score_name_candidate_multiline t r s rg n True"
  shows "score_name_candidate_multiline t r s rg n True
         = score_name_candidate_multiline t r s rg n False + 12"
proof -
  obtain d b where "0 \<le> b" and
    eq: "\<And>kw. score_name_candidate_multiline t r s rg n kw
                          = (if d then 0 else 5 + b + (if kw then 12 else 0))"
    using score_shape [of t r s rg n] by blast
  from assms have "\<not> d" by (simp add: eq split: if_splits)
  then show ?thesis by (simp add: eq)
qed


lemma candidates_from_starts_append:
  "candidates_from_starts text_blocks lines rg_index search_end num_lines starts acc
   = acc @ candidates_from_starts text_blocks lines rg_index search_end num_lines starts []"
proof (induction starts arbitrary: acc)
  case Nil
  show ?case by simp
next
  case (Cons s starts)
  note IH = Cons.IH [of "acc @ [above_candidate lines rg_index num_lines s]"]
      Cons.IH [of "[above_candidate lines rg_index num_lines s]"] Cons.IH [of acc]
  show ?case
    unfolding candidates_from_starts.simps Let_def
    using IH by (simp add: above_candidate_def Let_def)
qed


lemma candidates_above_append:
  "candidates_above text_blocks lines rg_index counts acc
   = acc @ candidates_above text_blocks lines rg_index counts []"
proof (induction counts arbitrary: acc)
  case Nil
  show ?case by simp
next
  case (Cons n counts)
  let ?inner = "\<lambda>acc. candidates_from_starts text_blocks lines rg_index (nat rg_index) n
                      [nat (max 0 (rg_index - 6)) ..< nat rg_index] acc"
  have "candidates_above text_blocks lines rg_index (n # counts) acc
        = candidates_above text_blocks lines rg_index counts (?inner acc)"
    by (simp add: Let_def)
  also have "\<dots> = ?inner acc @ candidates_above text_blocks lines rg_index counts []"
    by (rule Cons.IH)
  also have "?inner acc = acc @ ?inner []"
    by (rule candidates_from_starts_append)
  also have "(acc @ ?inner []) @ candidates_above text_blocks lines rg_index counts []
        = acc @ candidates_above text_blocks lines rg_index counts (?inner [])"
    using Cons.IH [of "?inner []"] by simp
  also have "candidates_above text_blocks lines rg_index counts (?inner [])
        = candidates_above text_blocks lines rg_index (n # counts) []"
    by (simp add: Let_def)
  finally show ?case .
qed

lemma candidates_after_line_append:
  "candidates_after_line lines rg_index i counts acc
   = acc @ candidates_after_line lines rg_index i counts []"
proof (induction counts arbitrary: acc)
  case Nil
  show ?case by simp
next
  case (Cons n counts)
  note IH = Cons.IH [of "acc @ [after_candidate lines rg_index n i]"]
      Cons.IH [of "[after_candidate lines rg_index n i]"] Cons.IH [of acc]
  show ?case
    unfolding candidates_after_line.simps Let_def
    using IH by (simp add: after_candidate_def Let_def)
qed

lemma candidates_after_name_append:
  "candidates_after_name lines rg_index i rest acc
   = acc @ candidates_after_name lines rg_index i rest []"
proof (induction rest arbitrary: i acc)
  case Nil
  show ?case by simp
next
  case (Cons line rest)
  show ?case
  proof (cases "contains (upper line) ''NAME''")
    case False
    then show ?thesis using Cons.IH [of "Suc i" acc] by simp
  next
    case True
    let ?inner = "\<lambda>acc. candidates_after_line lines rg_index i [1, 2, 3] acc"
    have "candidates_after_name lines rg_index i (line # rest) acc
        = candidates_after_name lines rg_index (Suc i) rest (?inner acc)"
      using True by simp
    also have "\<dots> = ?inner acc @ candidates_after_name lines rg_index (Suc i) rest []"
      by (rule Cons.IH)
    also have "?inner acc = acc @ ?inner []"
      by (rule candidates_after_line_append)
    also have "(acc @ ?inner []) @ candidates_after_name lines rg_index (Suc i) rest []
        = acc @ candidates_after_name lines rg_index (Suc i) rest (?inner [])"
      using Cons.IH [of "Suc i" "?inner []"] by simp
    also have "candidates_after_name lines rg_index (Suc i) rest (?inner [])
        = candidates_after_name lines rg_index i (line # rest) []"
      using True by simp
    finally show ?thesis .
  qed
qed

lemma pool_split:
  "name_candidates_of text_blocks = anchor_candidates text_blocks @ keyword_candidates text_blocks"
  unfolding name_candidates_of_def anchor_candidates_def keyword_candidates_def Let_def
  by (simp add: candidates_after_name_append [symmetric])


lemma keyword_candidates_inv:
  assumes "\<And>num_lines k. num_lines \<in> {1, 2, 3} \<Longrightarrow>
           k + num_lines < length text_blocks \<Longrightarrow>
           contains (upper (lines_of text_blocks ! k)) ''NAME'' \<Longrightarrow>
           0 < score_name_candidate_multiline
                 (c_name (after_candidate (lines_of text_blocks)
                    (snd (find_rg_number (lines_of text_blocks))) num_lines k))
                 (c_raw_lines (after_candidate (lines_of text_blocks)
                    (snd (find_rg_number (lines_of text_blocks))) num_lines k))
                 (k + 1) (snd (find_rg_number (lines_of text_blocks))) num_lines True \<Longrightarrow>
           P (after_candidate (lines_of text_blocks)
                 (snd (find_rg_number (lines_of text_blocks))) num_lines k)"
  shows "\<forall>c \<in> set (keyword_candidates text_blocks). P c"
  unfolding keyword_candidates_def Let_def
  by (rule candidates_after_name_inv) (use assms in \<open>auto simp: lines_of_def\<close>)








section \<open>The pool of scenario A\<close>

lemma scenario_a_pool:
  "name_candidates_of scenario_a =
     [\<lparr>c_name = ''NAME'', c_score = 26, c_lines = 1, c_start_idx = 1, c_end_idx = 2,
        c_raw_lines = [''NAME'']\<rparr>,
      \<lparr>c_name = ''JOHN SMITH'', c_score = 44, c_lines = 1, c_start_idx = 2, c_end_idx = 3,
        c_raw_lines = [''JOHN SMITH'']\<rparr>,
      \<lparr>c_name = ''NAME JOHN SMITH'', c_score = 54, c_lines = 2, c_start_idx = 1, c_end_idx = 3,
        c_raw_lines = [''NAME'', ''JOHN SMITH'']\<rparr>,
      \<lparr>c_name = ''JOHN SMITH'', c_score = 66, c_lines = 1, c_start_idx = 2, c_end_idx = 3,
        c_raw_lines = [''JOHN SMITH'']\<rparr>]"
  by code_simp

lemma scenario_a_keyword:
  "keyword_candidates scenario_a =
     [\<lparr>c_name = ''JOHN SMITH'', c_score = 66, c_lines = 1, c_start_idx = 2, c_end_idx = 3,
        c_raw_lines = [''JOHN SMITH'']\<rparr>]"
  by code_simp


lemma scenario_a_rg: "find_rg_number (lines_of scenario_a) = (''21BCE1234'', 3)"
  by code_simp

lemma scenario_a_john_smith:
  "score_name_candidate_multiline ''JOHN SMITH'' [''JOHN SMITH''] 2 3 1 True = 56"
  "score_name_candidate_multiline ''JOHN SMITH'' [''JOHN SMITH''] 2 3 1 False = 44"
  by code_simp+



section \<open>The success flag\<close>

text \<open>
  Claim C10. The extractor returns \<^verbatim>\<open>success = True\<close> for every list of line records;
  on the empty list it returns both sentinels, \<^verbatim>\<open>Unknown\<close> and \<^verbatim>\<open>Not Found\<close>, with
  the index \<open>-1\<close>, and the flag is still true.
\<close>
theorem success_is_constant:
  "success (extract_vit_id_multiline text_blocks) = True
   \<and> extract_vit_id_multiline [] =
       \<lparr>res_name = ''Unknown'', rgNumber = ''Not Found'', success = True,
        debug = \<lparr>totalLines = 0, rgFoundAt = - 1, candidatesFound = 0, topCandidate = None\<rparr>\<rparr>"
proof
  show "success (extract_vit_id_multiline text_blocks) = True"
    by (simp add: extract_vit_id_multiline_def Let_def split: prod.split)
  show "extract_vit_id_multiline [] =
       \<lparr>res_name = ''Unknown'', rgNumber = ''Not Found'', success = True,
        debug = \<lparr>totalLines = 0, rgFoundAt = - 1, candidatesFound = 0, topCandidate = None\<rparr>\<rparr>"
    by (simp add: extract_vit_id_multiline_def name_candidates_of_def lines_of_def
        find_rg_number_def Let_def)
qed

section \<open>Only positive scores are kept\<close>



section \<open>The score of a candidate of the keyword pass\<close>

text \<open>
  Claim C1, as the code has it. The pool is what step 2 appends followed by what step 3
  appends. A candidate appended by step 3, the keyword pass, carries the result of
  \<^verbatim>\<open>score_name_candidate_multiline\<close> for its merged text \<^emph>\<open>plus 10\<close>; inside that result
  the keyword signal is worth exactly 12.
\<close>
theorem keyword_candidate_score:
  "name_candidates_of text_blocks = anchor_candidates text_blocks @ keyword_candidates text_blocks
   \<and> (\<forall>c \<in> set (keyword_candidates text_blocks).
        c_score c = score_name_candidate_multiline (c_name c) (c_raw_lines c) (c_start_idx c)
                      (snd (find_rg_number (lines_of text_blocks))) (c_lines c) True + 10
        \<and> score_name_candidate_multiline (c_name c) (c_raw_lines c) (c_start_idx c)
            (snd (find_rg_number (lines_of text_blocks))) (c_lines c) True
          = score_name_candidate_multiline (c_name c) (c_raw_lines c) (c_start_idx c)
              (snd (find_rg_number (lines_of text_blocks))) (c_lines c) False + 12)"
proof
  show "name_candidates_of text_blocks
        = anchor_candidates text_blocks @ keyword_candidates text_blocks"
    by (rule pool_split)
  show "\<forall>c \<in> set (keyword_candidates text_blocks).
        c_score c = score_name_candidate_multiline (c_name c) (c_raw_lines c) (c_start_idx c)
                      (snd (find_rg_number (lines_of text_blocks))) (c_lines c) True + 10
        \<and> score_name_candidate_multiline (c_name c) (c_raw_lines c) (c_start_idx c)
            (snd (find_rg_number (lines_of text_blocks))) (c_lines c) True
          = score_name_candidate_multiline (c_name c) (c_raw_lines c) (c_start_idx c)
              (snd (find_rg_number (lines_of text_blocks))) (c_lines c) False + 12"
  proof (rule keyword_candidates_inv, goal_cases)
    case (1 num_lines k)
    from keyword_bonus [OF 1(4)] show ?case
      by (simp add: after_candidate_def Let_def)
  qed
qed

theorem keyword_candidate_score_witness:
  "keyword_candidates scenario_a \<noteq> []
   \<and> c_score (hd (keyword_candidates scenario_a)) = 56 + 10
   \<and> score_name_candidate_multiline ''JOHN SMITH'' [''JOHN SMITH''] 2 3 1 True = 44 + 12"
  using keyword_candidate_score [of scenario_a] scenario_a_john_smith
  by (simp add: scenario_a_keyword scenario_a_rg)

theorem keyword_candidate_score_counterexample:
  "keyword_candidates scenario_a =
     [\<lparr>c_name = ''JOHN SMITH'', c_score = 66, c_lines = 1, c_start_idx = 2, c_end_idx = 3,
        c_raw_lines = [''JOHN SMITH'']\<rparr>]
   \<and> score_name_candidate_multiline ''JOHN SMITH'' [''JOHN SMITH''] 2
        (snd (find_rg_number (lines_of scenario_a))) 1 True = 56"
  using scenario_a_john_smith by (simp add: scenario_a_keyword scenario_a_rg)

section \<open>The vertical gap of a merged span\<close>






lemma hd_insort_key:
  "hd (insort_key f x ys) = (if ys = [] \<or> f x \<le> f (hd ys) then x else hd ys)"
  by (cases ys) auto

lemma sort_key_first_least:
  fixes f :: "'a \<Rightarrow> int"
  assumes "xs \<noteq> []"
  shows "\<exists>i < length xs. hd (sort_key f xs) = xs ! i
           \<and> (\<forall>j < length xs. f (xs ! i) \<le> f (xs ! j))
           \<and> (\<forall>j < i. f (xs ! i) < f (xs ! j))"
  using assms
proof (induction xs)
  case Nil
  then show ?case by simp
next
  case (Cons x xs)
  show ?case
  proof (cases "xs = []")
    case True
    then show ?thesis by simp
  next
    case False
    from Cons.IH [OF False] obtain i where i: "i < length xs"
      and hd: "hd (sort_key f xs) = xs ! i"
      and least: "\<forall>j < length xs. f (xs ! i) \<le> f (xs ! j)"
      and first: "\<forall>j < i. f (xs ! i) < f (xs ! j)"
      by blast
    have ne: "sort_key f xs \<noteq> []"
      using False by (metis set_sort set_empty)
    show ?thesis
    proof (cases "f x \<le> f (xs ! i)")
      case True
      have "hd (sort_key f (x # xs)) = (x # xs) ! 0"
        using True hd ne by (simp add: hd_insort_key)
      moreover have "\<forall>j < length (x # xs). f ((x # xs) ! 0) \<le> f ((x # xs) ! j)"
        using True least by (auto simp: nth_Cons' intro: order_trans)
      ultimately show ?thesis by (intro exI [of _ 0]) simp
    next
      case greater: False
      have "hd (sort_key f (x # xs)) = (x # xs) ! Suc i"
        using greater hd ne by (simp add: hd_insort_key)
      moreover have "\<forall>j < length (x # xs). f ((x # xs) ! Suc i) \<le> f ((x # xs) ! j)"
        using greater least by (auto simp: nth_Cons')
      moreover have "\<forall>j < Suc i. f ((x # xs) ! Suc i) < f ((x # xs) ! j)"
        using greater first by (auto simp: nth_Cons')
      ultimately show ?thesis using i by (intro exI [of _ "Suc i"]) simp
    qed
  qed
qed

lemma extractor_takes_head:
  assumes "name_candidates_of text_blocks \<noteq> []"
  shows "topCandidate (debug (extract_vit_id_multiline text_blocks))
           = Some (hd (sort_by_score (name_candidates_of text_blocks)))
         \<and> res_name (extract_vit_id_multiline text_blocks)
           = clean_and_correct_name (c_name (hd (sort_by_score (name_candidates_of text_blocks))))"
proof -
  have "sort_by_score (name_candidates_of text_blocks) \<noteq> []"
    using assms by (metis set_sort set_empty sort_by_score_def)
  then obtain b bs where "sort_by_score (name_candidates_of text_blocks) = b # bs"
    by (cases "sort_by_score (name_candidates_of text_blocks)") auto
  then show ?thesis using assms
    by (simp add: extract_vit_id_multiline_def Let_def split: prod.split)
qed

section \<open>The selection of the best candidate\<close>

text \<open>
  Claim C6. The sort by decreasing score is stable, so the candidate selected from a pool
  that is not empty is the first one, in the order of generation, among those of the highest
  score: no candidate has a higher score, and every candidate generated before it has a
  strictly lower one. The extractor reports this candidate and cleans its name.
\<close>

theorem selector_is_stable:
  "(pool \<noteq> [] \<longrightarrow>
      (\<exists>i < length pool. hd (sort_by_score pool) = pool ! i
           \<and> (\<forall>j < length pool. c_score (pool ! j) \<le> c_score (pool ! i))
           \<and> (\<forall>j < i. c_score (pool ! j) < c_score (pool ! i))))
   \<and> (name_candidates_of text_blocks \<noteq> [] \<longrightarrow>
        topCandidate (debug (extract_vit_id_multiline text_blocks))
           = Some (hd (sort_by_score (name_candidates_of text_blocks)))
         \<and> res_name (extract_vit_id_multiline text_blocks)
           = clean_and_correct_name
               (c_name (hd (sort_by_score (name_candidates_of text_blocks)))))"
proof (intro conjI impI)
  assume "pool \<noteq> []"
  from sort_key_first_least [OF this, of "\<lambda>x. - c_score x"]
  show "\<exists>i < length pool. hd (sort_by_score pool) = pool ! i
           \<and> (\<forall>j < length pool. c_score (pool ! j) \<le> c_score (pool ! i))
           \<and> (\<forall>j < i. c_score (pool ! j) < c_score (pool ! i))"
    by (simp add: sort_by_score_def)
next
  assume ne: "name_candidates_of text_blocks \<noteq> []"
  from extractor_takes_head [OF ne]
  show "topCandidate (debug (extract_vit_id_multiline text_blocks))
           = Some (hd (sort_by_score (name_candidates_of text_blocks)))" by simp
  from extractor_takes_head [OF ne]
  show "res_name (extract_vit_id_multiline text_blocks)
           = clean_and_correct_name
               (c_name (hd (sort_by_score (name_candidates_of text_blocks))))" by simp
qed

lemma tie_pool_sorted: "hd (sort_by_score tie_pool) = tie_pool ! 1"
  by code_simp

theorem selector_is_stable_witness:
  "tie_pool \<noteq> [] \<and> c_score (tie_pool ! 1) = c_score (tie_pool ! 2)
   \<and> hd (sort_by_score tie_pool) = tie_pool ! 1
   \<and> name_candidates_of scenario_a \<noteq> []
   \<and> topCandidate (debug (extract_vit_id_multiline scenario_a))
       = Some (hd (sort_by_score (name_candidates_of scenario_a)))"
proof -
  have "tie_pool \<noteq> []" "c_score (tie_pool ! 1) = c_score (tie_pool ! 2)"
    by (simp_all add: tie_pool_def)
  moreover have "name_candidates_of scenario_a \<noteq> []"
    by (simp add: scenario_a_pool)
  ultimately show ?thesis
    using selector_is_stable [of tie_pool scenario_a] tie_pool_sorted by simp
qed

section \<open>The order of the caller's line records\<close>

lemma sort_key_of_permutation:
  assumes "distinct (map f xs)" and "mset ys = mset xs"
  shows "sort_key f ys = sort_key f xs"
proof (rule sort_key_inj_key_eq)
  show "mset ys = mset (sort_key f xs)" using assms(2) by simp
  have "set ys = set xs" using assms(2) by (rule mset_eq_setD)
  then show "inj_on f (set ys)" using assms(1) by (simp add: distinct_map)
  show "sorted (map f (sort_key f xs))" by simp
qed

text \<open>
  Claim C7, as the code has it. The handler sorts the line records by \<^verbatim>\<open>top\<close> with a
  stable sort before it calls the extractor. When the tops of the records are pairwise
  distinct, every reordering of the records gives the same result and the same candidate
  pool. Records with equal tops keep the order in which the caller gave them.
\<close>

theorem reordering_with_distinct_tops:
  assumes "distinct (map top_y text_blocks)" and "mset reordered = mset text_blocks"
  shows "process_text_blocks reordered = process_text_blocks text_blocks
         \<and> name_candidates_of (sort_key top_y reordered)
           = name_candidates_of (sort_key top_y text_blocks)"
  using sort_key_of_permutation [OF assms] by (simp add: process_text_blocks_def)

lemma scenario_a_tops: "distinct (map top_y scenario_a)"
  by (simp add: scenario_a_def line_record_def)

lemma scenario_a_result:
  "process_text_blocks scenario_a = 
     \<lparr>res_name = ''John Smith'', rgNumber = ''21BCE1234'', success = True,
      debug = \<lparr>totalLines = 5, rgFoundAt = 3, candidatesFound = 4,
         topCandidate = Some \<lparr>c_name = ''JOHN SMITH'', c_score = 66, c_lines = 1,
               c_start_idx = 2, c_end_idx = 3, c_raw_lines = [''JOHN SMITH'']\<rparr>\<rparr>\<rparr>"
  by code_simp

theorem reordering_with_distinct_tops_witness:
  "distinct (map top_y scenario_a) \<and> mset (rev scenario_a) = mset scenario_a
   \<and> res_name (process_text_blocks (rev scenario_a)) = ''John Smith''"
  using reordering_with_distinct_tops [OF scenario_a_tops, of "rev scenario_a"]
  by (simp add: scenario_a_tops scenario_a_result)

lemma tie_blocks_results:
  "res_name (process_text_blocks tie_blocks) = ''Ravi Kumar''"
  "res_name (process_text_blocks (rev tie_blocks)) = ''Unknown''"
  by code_simp+

theorem reordering_with_equal_tops_counterexample:
  "mset (rev tie_blocks) = mset tie_blocks
   \<and> res_name (process_text_blocks tie_blocks) = ''Ravi Kumar''
   \<and> res_name (process_text_blocks (rev tie_blocks)) = ''Unknown''"
  by (simp add: tie_blocks_results)

section \<open>Scenario A for every geometry\<close>

lemma candidates_from_starts_Cons:
  "candidates_from_starts text_blocks lines rg_index search_end num_lines (start_idx # rest) acc =
     (if start_idx + num_lines > search_end then acc
      else if num_lines > 1
              \<and> \<not> are_blocks_vertically_close
                    (slice text_blocks start_idx (start_idx + num_lines)) max_gap_default
      then candidates_from_starts text_blocks lines rg_index search_end num_lines rest acc
      else candidates_from_starts text_blocks lines rg_index search_end num_lines rest
             (if 0 < c_score (above_candidate lines rg_index num_lines start_idx)
              then acc @ [above_candidate lines rg_index num_lines start_idx] else acc))"
  by (simp add: above_candidate_def Let_def)

lemma scenario_a_lines_stripped: "map strip scenario_a_lines = scenario_a_lines"
  by code_simp

lemma scenario_a_lines_rg: "find_rg_number scenario_a_lines = (''21BCE1234'', 3)"
  by code_simp

lemma scenario_a_lines_keyword:
  "candidates_after_name scenario_a_lines 3 0 scenario_a_lines [] = [john_smith_after_name]"
  by code_simp

lemma scenario_a_lines_above:
  "c_score (above_candidate scenario_a_lines 3 1 0) = 0"
  "above_candidate scenario_a_lines 3 1 1 =
     \<lparr>c_name = ''NAME'', c_score = 26, c_lines = 1, c_start_idx = 1, c_end_idx = 2,
      c_raw_lines = [''NAME'']\<rparr>"
  "above_candidate scenario_a_lines 3 1 2 =
     \<lparr>c_name = ''JOHN SMITH'', c_score = 44, c_lines = 1, c_start_idx = 2, c_end_idx = 3,
      c_raw_lines = [''JOHN SMITH'']\<rparr>"
  "c_score (above_candidate scenario_a_lines 3 2 0) = 0"
  "above_candidate scenario_a_lines 3 2 1 =
     \<lparr>c_name = ''NAME JOHN SMITH'', c_score = 54, c_lines = 2, c_start_idx = 1, c_end_idx = 3,
      c_raw_lines = [''NAME'', ''JOHN SMITH'']\<rparr>"
  "c_score (above_candidate scenario_a_lines 3 3 0) = 0"
  by code_simp+

lemma scenario_a_lines_anchor:
  "candidates_above text_blocks scenario_a_lines 3 [1, 2, 3] [] =
     [above_candidate scenario_a_lines 3 1 1, above_candidate scenario_a_lines 3 1 2]
     @ (if are_blocks_vertically_close (slice text_blocks 1 3) max_gap_default
        then [above_candidate scenario_a_lines 3 2 1] else [])"
proof -
  have starts: "[nat (max 0 (3 - 6)) ..< nat 3] = [0, 1, 2]"
    by (simp add: upt_rec)
  have one: "candidates_from_starts text_blocks scenario_a_lines 3 3 1 [0, 1, 2] [] =
     [above_candidate scenario_a_lines 3 1 1, above_candidate scenario_a_lines 3 1 2]"
    using scenario_a_lines_above
    by (simp add: candidates_from_starts_Cons eval_nat_numeral del: candidates_from_starts.simps(2))
  have two: "candidates_from_starts text_blocks scenario_a_lines 3 3 2 [0, 1, 2] acc =
     acc @ (if are_blocks_vertically_close (slice text_blocks 1 3) max_gap_default
        then [above_candidate scenario_a_lines 3 2 1] else [])" for acc
    using scenario_a_lines_above
    by (simp add: candidates_from_starts_Cons eval_nat_numeral del: candidates_from_starts.simps(2))
  have three: "candidates_from_starts text_blocks scenario_a_lines 3 3 3 [0, 1, 2] acc = acc"
    for acc
    using scenario_a_lines_above
    by (simp add: candidates_from_starts_Cons eval_nat_numeral del: candidates_from_starts.simps(2))
  show ?thesis
    unfolding candidates_above.simps Let_def starts
    by (simp only: nat_numeral one two three)
qed

lemma scenario_a_lines_sorted:
  "hd (sort_by_score [above_candidate scenario_a_lines 3 1 1,
         above_candidate scenario_a_lines 3 1 2, john_smith_after_name]) = john_smith_after_name"
  "hd (sort_by_score [above_candidate scenario_a_lines 3 1 1,
         above_candidate scenario_a_lines 3 1 2, above_candidate scenario_a_lines 3 2 1,
         john_smith_after_name]) = john_smith_after_name"
  by code_simp+

lemma john_smith_cleaned: "clean_and_correct_name ''JOHN SMITH'' = ''John Smith''"
  by code_simp

text \<open>
  Claim C3. On line records whose texts are \<^verbatim>\<open>VIT UNIVERSITY\<close>, \<^verbatim>\<open>NAME\<close>,
  \<^verbatim>\<open>JOHN SMITH\<close>, \<^verbatim>\<open>21BCE1234\<close>, \<^verbatim>\<open>BLOOD GROUP O+\<close>, in this order and with any
  geometry, the extractor finds the registration number \<^verbatim>\<open>21BCE1234\<close> at index 3, the
  keyword pass appends \<^verbatim>\<open>JOHN SMITH\<close>, which is the top candidate, and the name returned
  is \<^verbatim>\<open>John Smith\<close>. When the tops are in ascending order the handler's sort leaves
  the records as they are.
\<close>

theorem scenario_a_any_geometry:
  assumes "map line_text text_blocks = scenario_a_lines"
  shows "rgFoundAt (debug (extract_vit_id_multiline text_blocks)) = 3
     \<and> rgNumber (extract_vit_id_multiline text_blocks) = ''21BCE1234''
     \<and> keyword_candidates text_blocks = [john_smith_after_name]
     \<and> topCandidate (debug (extract_vit_id_multiline text_blocks)) = Some john_smith_after_name
     \<and> res_name (extract_vit_id_multiline text_blocks) = ''John Smith''
     \<and> (sorted (map top_y text_blocks) \<longrightarrow>
          process_text_blocks text_blocks = extract_vit_id_multiline text_blocks)"
proof -
  have lines: "lines_of text_blocks = scenario_a_lines"
  proof -
    have "lines_of text_blocks = map strip (map line_text text_blocks)"
      by (simp add: lines_of_def)
    then show ?thesis by (simp add: assms scenario_a_lines_stripped)
  qed
  have rg: "find_rg_number (lines_of text_blocks) = (''21BCE1234'', 3)"
    by (simp add: lines scenario_a_lines_rg)
  have keyword: "keyword_candidates text_blocks = [john_smith_after_name]"
    by (simp add: keyword_candidates_def lines scenario_a_lines_rg scenario_a_lines_keyword)
  have anchor: "anchor_candidates text_blocks =
     [above_candidate scenario_a_lines 3 1 1, above_candidate scenario_a_lines 3 1 2]
     @ (if are_blocks_vertically_close (slice text_blocks 1 3) max_gap_default
        then [above_candidate scenario_a_lines 3 2 1] else [])"
    unfolding anchor_candidates_def Let_def lines scenario_a_lines_rg snd_conv
    using scenario_a_lines_anchor [of text_blocks] by simp
  have pool: "name_candidates_of text_blocks \<noteq> []"
    by (simp add: pool_split keyword)
  have best: "hd (sort_by_score (name_candidates_of text_blocks)) = john_smith_after_name"
    using scenario_a_lines_sorted by (simp add: pool_split keyword anchor)
  have result: "rgFoundAt (debug (extract_vit_id_multiline text_blocks)) = 3"
    "rgNumber (extract_vit_id_multiline text_blocks) = ''21BCE1234''"
    by (simp_all add: extract_vit_id_multiline_def Let_def rg)
  have name: "res_name (extract_vit_id_multiline text_blocks) = ''John Smith''"
    using extractor_takes_head [OF pool]
    by (simp add: best john_smith_after_name_def john_smith_cleaned)
  have top: "topCandidate (debug (extract_vit_id_multiline text_blocks))
      = Some john_smith_after_name"
    using extractor_takes_head [OF pool] by (simp add: best)
  have "process_text_blocks text_blocks = extract_vit_id_multiline text_blocks"
    if "sorted (map top_y text_blocks)"
    using that by (simp add: process_text_blocks_def sort_key_id_if_sorted)
  then show ?thesis using result keyword top name by blast
qed

lemma scenario_a_texts: "map line_text scenario_a = scenario_a_lines"
  by (simp add: scenario_a_def scenario_a_lines_def line_record_def)

theorem scenario_a_any_geometry_witness:
  "map line_text scenario_a = scenario_a_lines
   \<and> rgFoundAt (debug (extract_vit_id_multiline scenario_a)) = 3
   \<and> rgNumber (extract_vit_id_multiline scenario_a) = ''21BCE1234''
   \<and> topCandidate (debug (extract_vit_id_multiline scenario_a)) = Some john_smith_after_name
   \<and> res_name (extract_vit_id_multiline scenario_a) = ''John Smith''
   \<and> sorted (map top_y scenario_a)
   \<and> res_name (process_text_blocks scenario_a) = ''John Smith''"
proof -
  have "sorted (map top_y scenario_a)"
    by (simp add: scenario_a_def line_record_def)
  then show ?thesis
    using scenario_a_any_geometry [OF scenario_a_texts] scenario_a_texts by simp
qed

section \<open>The digit substitution of \<^verbatim>\<open>fix_ocr_errors\<close>\<close>

lemma sub_special: "sub_from special_re 0 prev s = filter (in_class KeptInName) s"
  by (induction s arbitrary: prev) (simp_all add: special_re_def)

lemma split_from_chars:
  "w \<in> set (split_from cur s) \<Longrightarrow> set w \<subseteq> set cur \<union> set s"
proof (induction s arbitrary: cur)
  case Nil
  then show ?case by (simp split: if_splits)
next
  case (Cons c cs)
  show ?case
  proof (cases "is_space c")
    case False
    then have "w \<in> set (split_from (cur @ [c]) cs)" using Cons.prems by simp
    from Cons.IH [OF this] show ?thesis by auto
  next
    case True
    then have "w = cur \<or> w \<in> set (split_from [] cs)"
      using Cons.prems by (auto split: if_splits)
    then show ?thesis using Cons.IH [of "[]"] by auto
  qed
qed

lemma split_chars: "w \<in> set (split s) \<Longrightarrow> set w \<subseteq> set s"
  using split_from_chars [of w "[]" s] by (simp add: split_def)

lemma kept_not_digit: "in_class KeptInName c \<Longrightarrow> \<not> is_digit c"
  by (auto simp: is_digit_def is_alpha_def is_upper_def is_lower_def is_space_def char_code_def)

lemma name_words_chars:
  assumes "w \<in> set (name_words name0)" and "c \<in> set w"
  shows "in_class KeptInName c"
proof -
  from assms(1) have "set w \<subseteq> set (re_sub_empty special_re
      (re_sub_empty digits_re (join '' '' (split name0))))"
    by (auto simp: name_words_def Let_def dest: split_chars)
  then show ?thesis
    using assms(2) by (auto simp: re_sub_empty_def sub_special)
qed

lemma digit_literals:
  "is_digit CHR ''0''" "is_digit CHR ''1''" "is_digit CHR ''5''" "is_digit CHR ''8''"
  by (simp_all add: is_digit_def char_code_def)

lemma no_digit_no_replacement:
  assumes "\<forall>c \<in> set word. \<not> is_digit c"
  shows "apply_replacements replacements word word = word"
proof -
  have "CHR ''0'' \<notin> set word" "CHR ''1'' \<notin> set word" "CHR ''5'' \<notin> set word"
    "CHR ''8'' \<notin> set word"
    using assms digit_literals by blast+
  then show ?thesis by (simp add: replacements_def)
qed

lemma no_digit_same_fix:
  "\<forall>c \<in> set word. \<not> is_digit c \<Longrightarrow>
     fix_ocr_errors word = fix_ocr_errors_without_substitution word"
  by (simp add: fix_ocr_errors_def fix_ocr_errors_without_substitution_def
      no_digit_no_replacement Let_def)

text \<open>
  Claim C9. Every token that \<^verbatim>\<open>clean_and_correct_name\<close> hands to
  \<^verbatim>\<open>fix_ocr_errors\<close> is free of digits, because the two substitutions before the split
  delete every character that is not a letter, whitespace, a period or an apostrophe. So the
  loop over the table 0 to O, 1 to I, 5 to S, 8 to B changes no token, and the normalizer
  equals the variant in which that loop is removed, on every input.
\<close>

theorem digit_substitution_is_dead:
  "(\<forall>w \<in> set (name_words name0). \<forall>c \<in> set w. \<not> is_digit c)
   \<and> (\<forall>w \<in> set (name_words name0). apply_replacements replacements w w = w)
   \<and> clean_and_correct_name name0 = clean_and_correct_name_without_substitution name0"
proof -
  have digits: "\<forall>w \<in> set (name_words name0). \<forall>c \<in> set w. \<not> is_digit c"
    using name_words_chars kept_not_digit by blast
  then have "map fix_ocr_errors (name_words name0)
      = map fix_ocr_errors_without_substitution (name_words name0)"
    by (intro map_cong refl) (simp add: no_digit_same_fix)
  then have "clean_and_correct_name name0 = clean_and_correct_name_without_substitution name0"
    unfolding clean_and_correct_name_def clean_and_correct_name_without_substitution_def Let_def
    by (simp only:)
  then show ?thesis using digits no_digit_no_replacement by blast
qed

lemma digit_name_words: "name_words ''R4VI KUM4R 80'' = [''RVI'', ''KUMR'']"
  by code_simp

lemma digit_name_cleaned:
  "clean_and_correct_name_without_substitution ''R4VI KUM4R 80'' = ''Rvi Kumr''"
  by code_simp

theorem digit_substitution_is_dead_witness:
  "name_words ''R4VI KUM4R 80'' = [''RVI'', ''KUMR'']
   \<and> apply_replacements replacements ''RVI'' ''RVI'' = ''RVI''
   \<and> clean_and_correct_name ''R4VI KUM4R 80'' = ''Rvi Kumr''"
  using digit_substitution_is_dead [of "''R4VI KUM4R 80''"]
  by (simp add: digit_name_words digit_name_cleaned)

section \<open>Names that are already clean\<close>

lemma alpha_classes:
  "is_alpha c \<Longrightarrow> \<not> is_space c" "is_alpha c \<Longrightarrow> \<not> is_digit c"
  "is_upper c \<Longrightarrow> \<not> is_lower c" "is_lower c \<Longrightarrow> \<not> is_upper c"
  "is_alpha c \<Longrightarrow> c \<noteq> CHR 0x0A"
  by (auto simp: is_alpha_def is_upper_def is_lower_def is_space_def is_digit_def char_code_def)

lemma capitalized_wordD:
  assumes "capitalized_word w"
  obtains x y ys where "w = x # y # ys" "is_upper x" "is_lower y" "list_all is_lower ys"
proof -
  from assms obtain x y ys where "w = x # y # ys"
    by (cases w; cases "tl w") (auto simp: capitalized_word_def)
  with assms that show thesis by (auto simp: capitalized_word_def)
qed

lemma capitalized_alpha: "capitalized_word w \<Longrightarrow> \<forall>c \<in> set w. is_alpha c"
  by (erule capitalized_wordD) (auto simp: is_alpha_def list_all_iff)

lemma capitalize_capitalized: "capitalized_word w \<Longrightarrow> capitalize w = w"
proof (erule capitalized_wordD)
  fix x y ys
  assume w: "w = x # y # ys" and "is_upper x" "is_lower y" "list_all is_lower ys"
  then have "upper_char x = x" "map lower_char (y # ys) = y # ys"
    by (auto simp: upper_char_def lower_char_def alpha_classes list_all_iff intro: map_idI)
  then show ?thesis by (simp add: w lower_def)
qed

lemma split_from_word:
  "\<forall>c \<in> set w. \<not> is_space c \<Longrightarrow> split_from cur (w @ rest) = split_from (cur @ w) rest"
  by (induction w arbitrary: cur) simp_all

lemma space_is_space: "is_space CHR '' ''"
  by (simp add: is_space_def char_code_def)

lemma split_two_words:
  assumes "a \<noteq> []" "b \<noteq> []" "\<forall>c \<in> set a. \<not> is_space c" "\<forall>c \<in> set b. \<not> is_space c"
  shows "split (a @ '' '' @ b) = [a, b]"
proof -
  have "split (a @ '' '' @ b) = split_from a (CHR '' '' # b)"
    using split_from_word [OF assms(3), of "[]" "'' '' @ b"] by (simp add: split_def)
  also have "\<dots> = a # split_from [] (b @ [])"
    using assms(1) by (simp add: space_is_space)
  also have "split_from [] (b @ []) = split_from b []"
    using split_from_word [OF assms(4), of "[]" "[]"] by simp
  finally show ?thesis using assms(2) by simp
qed

lemma sub_from_no_match:
  assumes "\<And>n prev. n < length s \<Longrightarrow> rmatch p prev (drop n s) = None"
  shows "sub_from p 0 prev s = s"
  using assms
proof (induction s arbitrary: prev)
  case Nil
  show ?case by simp
next
  case (Cons c cs)
  have "rmatch p prev (c # cs) = None"
    using Cons.prems [of 0 prev] by simp
  moreover have "sub_from p 0 (Some c) cs = cs"
  proof (rule Cons.IH)
    fix n prev
    assume "n < length cs"
    then show "rmatch p prev (drop n cs) = None"
      using Cons.prems [of "Suc n" prev] by simp
  qed
  ultimately show ?case by simp
qed

lemma no_digits_at_head:
  "s = [] \<or> \<not> is_digit (hd s) \<Longrightarrow> rmatch digits_re prev s = None"
  by (cases s) (auto simp: digits_re_def)

lemma no_space_at_head:
  "s = [] \<or> \<not> is_space (hd s) \<Longrightarrow> rmatch trailing_letter_re prev s = None"
  by (cases s) (auto simp: trailing_letter_re_def)

lemma space_before_two_letters:
  assumes "is_alpha x" "is_alpha y"
  shows "rmatch trailing_letter_re prev (CHR '' '' # x # y # ys) = None"
  using assms alpha_classes(1) [of x] alpha_classes(5) [of y]
  by (simp add: trailing_letter_re_def space_is_space)

lemma two_words_no_trailing_letter:
  assumes "\<forall>c \<in> set a. is_alpha c" "is_alpha x" "is_alpha y" "\<forall>c \<in> set ys. is_alpha c"
  shows "rmatch trailing_letter_re prev (drop n (a @ CHR '' '' # x # y # ys)) = None"
proof -
  let ?b = "x # y # ys"
  have b: "\<forall>c \<in> set ?b. is_alpha c" using assms by simp
  consider "n < length a" | "n = length a" | "n > length a \<and> n - Suc (length a) < length ?b"
    | "n > length a \<and> n - Suc (length a) \<ge> length ?b"
    by linarith
  then show ?thesis
  proof cases
    case 1
    then have "hd (drop n (a @ CHR '' '' # ?b)) = a ! n"
      by (simp add: hd_drop_conv_nth nth_append)
    moreover have "is_alpha (a ! n)" using 1 assms(1) by simp
    moreover have "drop n (a @ CHR '' '' # ?b) \<noteq> []" using 1 by simp
    ultimately show ?thesis
      by (intro no_space_at_head) (simp add: alpha_classes)
  next
    case 2
    then show ?thesis using space_before_two_letters [OF assms(2,3)] by simp
  next
    case 3
    let ?m = "n - Suc (length a)"
    have eq: "drop n (a @ CHR '' '' # ?b) = drop ?m ?b"
      using 3 by (simp add: drop_Cons')
    have "hd (drop ?m ?b) = ?b ! ?m"
      using 3 by (intro hd_drop_conv_nth) simp
    moreover have "is_alpha (?b ! ?m)" using 3 b by (meson nth_mem)
    ultimately show ?thesis
      unfolding eq by (intro no_space_at_head) (simp add: alpha_classes)
  next
    case 4
    then have "length a + 1 + length ?b \<le> n" by linarith
    then have "drop n (a @ CHR '' '' # ?b) = []" by simp
    then show ?thesis by (simp add: no_space_at_head)
  qed
qed

lemma strip_word_ends:
  assumes "s \<noteq> []" "\<not> is_space (hd s)" "\<not> is_space (last s)"
  shows "strip s = s"
proof -
  have "dropWhile is_space s = s"
    using assms(1,2) by (cases s) simp_all
  moreover have "dropWhile is_space (rev s) = rev s"
    using assms(1,3) by (cases "rev s") (simp_all add: last_rev [symmetric])
  ultimately show ?thesis by (simp add: strip_def)
qed

lemma clean_two_words:
  assumes a: "capitalized_word a" "kept_by_dictionary a"
    and b: "capitalized_word b" "kept_by_dictionary b"
  shows "name_words (a @ '' '' @ b) = [a, b]"
    and "clean_and_correct_name (a @ '' '' @ b) = a @ '' '' @ b"
proof -
  let ?s = "a @ '' '' @ b"
  have alpha: "\<forall>c \<in> set a. is_alpha c" "\<forall>c \<in> set b. is_alpha c"
    using a(1) b(1) by (simp_all add: capitalized_alpha)
  have len: "2 \<le> length a" "2 \<le> length b"
    using a(1) b(1) by (simp_all add: capitalized_word_def)
  then have ne: "a \<noteq> []" "b \<noteq> []" by auto
  have no_space: "\<forall>c \<in> set a. \<not> is_space c" "\<forall>c \<in> set b. \<not> is_space c"
    using alpha alpha_classes(1) by blast+
  have split: "split ?s = [a, b]"
    by (rule split_two_words [OF ne no_space])
  have joined: "join '' '' (split ?s) = ?s"
    unfolding split by simp
  have no_digit: "\<forall>c \<in> set ?s. \<not> is_digit c"
    using alpha alpha_classes(2) by (auto simp: is_digit_def char_code_def)
  have digits: "re_sub_empty digits_re ?s = ?s"
    unfolding re_sub_empty_def
  proof (rule sub_from_no_match)
    fix n prev
    assume n: "n < length ?s"
    then have "hd (drop n ?s) \<in> set ?s"
      by (metis hd_drop_conv_nth nth_mem)
    then show "rmatch digits_re prev (drop n ?s) = None"
      using no_digit by (intro no_digits_at_head) blast
  qed
  have kept: "\<forall>c \<in> set ?s. in_class KeptInName c"
    using alpha by (auto simp: space_is_space)
  have special: "re_sub_empty special_re ?s = ?s"
    using kept by (simp add: re_sub_empty_def sub_special)
  show words: "name_words ?s = [a, b]"
    using len split digits special by (simp add: name_words_def Let_def)
  have unchanged: "fix_ocr_errors w = w" if "capitalized_word w" "kept_by_dictionary w" for w
  proof -
    have "\<forall>c \<in> set w. \<not> is_digit c"
      using capitalized_alpha [OF that(1)] alpha_classes(2) by blast
    then have "fix_ocr_errors w = fix_ocr_errors_without_substitution w"
      by (rule no_digit_same_fix)
    also have "\<dots> = w"
      using that(2) capitalize_capitalized [OF that(1)]
      by (auto simp add: fix_ocr_errors_without_substitution_def kept_by_dictionary_def
          split: option.splits if_splits)
    finally show ?thesis .
  qed
  have formatted: "map capitalize (map fix_ocr_errors [a, b]) = [a, b]"
    using a b by (simp add: unchanged capitalize_capitalized)
  obtain x y ys where bb: "b = x # y # ys" "is_upper x" "is_lower y" "list_all is_lower ys"
    using b(1) by (rule capitalized_wordD)
  have stripped: "strip ?s = ?s"
  proof (rule strip_word_ends)
    show "?s \<noteq> []" using ne by simp
    show "\<not> is_space (hd ?s)" using ne no_space by (cases a) simp_all
    have "last ?s = last b" using ne by simp
    then show "\<not> is_space (last ?s)" using ne no_space(2) by simp
  qed
  have trailing: "re_sub_empty trailing_letter_re ?s = ?s"
    unfolding re_sub_empty_def
  proof (rule sub_from_no_match)
    fix n prev
    have "is_alpha x" "is_alpha y" "\<forall>c \<in> set ys. is_alpha c"
      using alpha(2) by (simp_all add: bb)
    from two_words_no_trailing_letter [OF alpha(1) this, of prev n]
    show "rmatch trailing_letter_re prev (drop n ?s) = None"
      by (simp add: bb)
  qed
  show "clean_and_correct_name ?s = ?s"
    using words formatted stripped trailing by (simp add: clean_and_correct_name_def Let_def)
qed

text \<open>
  Claim C8, as the code has it. A name of two capitalized alphabetic words, each of at least
  two letters, joined by one space, is returned unchanged by \<^verbatim>\<open>clean_and_correct_name\<close>,
  provided that no word contains a fragment of the table \<^verbatim>\<open>incomplete_patterns\<close> (or the
  first fragment it contains stands for the word itself). A word that contains a fragment is
  replaced by the table's full name.
\<close>

theorem clean_names_are_kept:
  assumes "capitalized_word first" "capitalized_word surname"
    and "kept_by_dictionary first" "kept_by_dictionary surname"
  shows "clean_and_correct_name (first @ '' '' @ surname) = first @ '' '' @ surname"
  using clean_two_words(2) [OF assms(1,3,2,4)] .

lemma ravi_kumar_clean:
  "capitalized_word ''Ravi''" "capitalized_word ''Kumar''"
  "kept_by_dictionary ''Ravi''" "kept_by_dictionary ''Kumar''"
  by code_simp+

theorem clean_names_are_kept_witness:
  "capitalized_word ''Ravi'' \<and> capitalized_word ''Kumar''
   \<and> kept_by_dictionary ''Ravi'' \<and> kept_by_dictionary ''Kumar''
   \<and> clean_and_correct_name ''Ravi Kumar'' = ''Ravi Kumar''"
  using clean_names_are_kept [OF ravi_kumar_clean] ravi_kumar_clean by simp

lemma naman_gupta:
  "capitalized_word ''Naman''" "capitalized_word ''Gupta''"
  "clean_and_correct_name ''Naman Gupta'' = ''Anaman Gupta''"
  by code_simp+

theorem dictionary_rewrites_clean_name_counterexample:
  "capitalized_word ''Naman'' \<and> capitalized_word ''Gupta''
   \<and> clean_and_correct_name (''Naman'' @ '' '' @ ''Gupta'') = ''Anaman Gupta''
   \<and> ''Anaman Gupta'' \<noteq> ''Naman'' @ '' '' @ ''Gupta''"
  using naman_gupta by simp

section \<open>The registration number\<close>













lemma contains_Cons: "contains cs m \<Longrightarrow> contains (c # cs) m"
  by simp











end
